theory Spec2Isabelle
  imports Main
begin

section \<open>Strings and the two regular expressions of the script\<close>

text \<open>
  The userscript exists in two variants, \<^verbatim>\<open>src/main.js\<close> and
  \<^verbatim>\<open>src/unnamed/part_000\<close>. \<^verbatim>\<open>parseUidFromUrl\<close>, \<^verbatim>\<open>getCsrfToken\<close> and
  \<^verbatim>\<open>blockUser\<close> are the same text in both; the extractor and the orchestrator differ
  and are modelled once per variant (suffix \<open>_p0\<close> for \<^verbatim>\<open>part_000\<close>).

  A JavaScript string is a sequence of UTF-16 code units; here it is a \<open>string\<close>
  (a list of 8-bit characters, non-ASCII text in UTF-8). Both regular expressions of
  the script mention ASCII characters only, and no byte of a multi-byte UTF-8
  sequence is ASCII, so matching is the same on either representation.
\<close>

definition is_digit :: "char \<Rightarrow> bool" where
  \<comment> \<open>the class \<^verbatim>\<open>\d\<close>: the ten ASCII digits\<close>
  "is_digit c \<longleftrightarrow> c \<in> set ''0123456789''"

definition not_semicolon :: "char \<Rightarrow> bool" where
  \<comment> \<open>the class \<^verbatim>\<open>[^;]\<close>\<close>
  "not_semicolon c \<longleftrightarrow> c \<noteq> CHR '';''"

fun starts_with :: "string \<Rightarrow> string \<Rightarrow> string option" where
  \<comment> \<open>\<open>starts_with lit s\<close>: what is left of \<open>s\<close> after the literal \<open>lit\<close>, if \<open>s\<close> begins with it\<close>
  "starts_with [] s = Some s"
| "starts_with (l # ls) [] = None"
| "starts_with (l # ls) (c # cs) = (if l = c then starts_with ls cs else None)"

definition match_here :: "string \<Rightarrow> (char \<Rightarrow> bool) \<Rightarrow> string \<Rightarrow> string option" where
  \<comment> \<open>one attempt of the pattern \<^verbatim>\<open>lit(cls+)\<close> at the start of \<open>s\<close>: the literal, then
      the longest non-empty run of the class (the quantifier is greedy and nothing
      follows the group, so no backtracking shortens the run); the captured group\<close>
  "match_here lit cls s =
     (case starts_with lit s of
        None \<Rightarrow> None
      | Some rest \<Rightarrow>
          (let run = takeWhile cls rest in if run = [] then None else Some run))"

fun regex_match :: "string \<Rightarrow> (char \<Rightarrow> bool) \<Rightarrow> string \<Rightarrow> string option" where
  \<comment> \<open>\<^verbatim>\<open>s.match(/lit(cls+)/)\<close> followed by \<^verbatim>\<open>match ? match[1] : null\<close>: the pattern
      is tried at position 0, 1, 2, ... and the first position where it matches wins\<close>
  "regex_match lit cls [] = match_here lit cls []"
| "regex_match lit cls (c # cs) =
     (case match_here lit cls (c # cs) of
        Some g \<Rightarrow> Some g
      | None \<Rightarrow> regex_match lit cls cs)"

definition space_marker :: string where
  \<comment> \<open>the literal part of \<^verbatim>\<open>/space\.bilibili\.com\/(\d+)/\<close>\<close>
  "space_marker = ''space.bilibili.com/''"

definition parseUidFromUrl :: "string \<Rightarrow> string option" where
  \<comment> \<open>\<^verbatim>\<open>const match = url.match(/space\.bilibili\.com\/(\d+)/); return match ? match[1] : null;\<close>\<close>
  "parseUidFromUrl url = regex_match space_marker is_digit url"

definition getCsrfToken :: "string \<Rightarrow> string option" where
  \<comment> \<open>\<^verbatim>\<open>document.cookie.match(/bili_jct=([^;]+)/)\<close>, the cookie string as argument\<close>
  "getCsrfToken cookie = regex_match ''bili_jct='' not_semicolon cookie"

definition falsy :: "string option \<Rightarrow> bool" where
  \<comment> \<open>JavaScript's \<^verbatim>\<open>!v\<close> for a value that is a string or \<^verbatim>\<open>null\<close>: true for
      \<^verbatim>\<open>null\<close> and for the empty string\<close>
  "falsy v = (case v of None \<Rightarrow> True | Some s \<Rightarrow> s = [])"

section \<open>Values, results and observable effects\<close>

datatype jsval =
    JNull
  | JBool bool
  | JNum int
  | JStr string
  | JArr "jsval list"
  | JObj "(string \<times> jsval) list"
  \<comment> \<open>what \<^verbatim>\<open>res.json()\<close> can resolve to. The script does one thing with a number,
      the comparison \<^verbatim>\<open>=== 0\<close>, so a number is kept as an integer (\<^verbatim>\<open>-0\<close> and
      \<^verbatim>\<open>0\<close> both as 0). A \<open>JObj\<close> lists the object's own properties.\<close>

datatype 'a outcome = Value 'a | TypeError

fun get_prop :: "jsval \<Rightarrow> string \<Rightarrow> jsval option outcome" where
  \<comment> \<open>\<^verbatim>\<open>data.code\<close> and \<^verbatim>\<open>data.message\<close>: reading a property of \<^verbatim>\<open>null\<close> throws,
      a missing property is \<^verbatim>\<open>undefined\<close> (\<open>None\<close>); numbers, strings, booleans and
      arrays have no property of either name\<close>
  "get_prop JNull k = TypeError"
| "get_prop (JObj kvs) k = Value (map_of kvs k)"
| "get_prop v k = Value None"

fun can_stringify :: "jsval \<Rightarrow> bool" where
  \<comment> \<open>the conversion to a string that the template literal \<^verbatim>\<open>${data.message}\<close> applies
      to a value \<^verbatim>\<open>res.json()\<close> gave: true when it returns a string, false when it throws
      a \<^verbatim>\<open>TypeError\<close>. An object is converted by its \<^verbatim>\<open>toString\<close>, then its
      \<^verbatim>\<open>valueOf\<close>: an own property \<^verbatim>\<open>toString\<close> of parsed JSON is never a function, and
      \<^verbatim>\<open>valueOf\<close> (own: not a function; inherited: returns the object) gives no primitive,
      so the conversion throws; with no own \<^verbatim>\<open>toString\<close> the inherited one answers
      "[object Object]". An array is joined: \<^verbatim>\<open>null\<close> elements give the empty string,
      every other element is converted in turn.\<close>
  "can_stringify (JObj kvs) = (map_of kvs ''toString'' = None)"
| "can_stringify (JArr vs) = list_all can_stringify vs"
| "can_stringify v = True"

definition stringifies :: "jsval option \<Rightarrow> bool" where
  \<comment> \<open>the same for a property that may be missing: \<^verbatim>\<open>undefined\<close> gives "undefined"\<close>
  "stringifies m = (case m of None \<Rightarrow> True | Some v \<Rightarrow> can_stringify v)"

datatype fetch_outcome =
    Rejected
  | Response nat "jsval option"
  \<comment> \<open>\<open>Rejected\<close>: the promise of \<^verbatim>\<open>fetch\<close> rejects (no HTTP response was received).
      \<open>Response status body\<close>: a response with that HTTP status arrived; \<open>body\<close> is
      \<open>None\<close> when \<^verbatim>\<open>res.json()\<close> rejects (the body is not JSON), else the parsed value.\<close>

record block_result =
  success :: bool
  uid :: "string option"
  msg :: "jsval option"
  \<comment> \<open>the object literal \<^verbatim>\<open>blockUser\<close> returns; \<open>None\<close> is a key that is missing or
      whose value is \<^verbatim>\<open>undefined\<close>\<close>

datatype notice =
    PleaseLogin
  | ContainerNotFound
  | NoCreatorsWait
  | NoCreatorsCheckPage
  | BatchComplete int nat
  \<comment> \<open>the texts of the script's \<^verbatim>\<open>alert\<close> calls: "Please login to Bilibili first.",
      "Container not found (...)", "No creators found. Wait for the list to load ...",
      "No creators found. Please check page structure.", and
      "Batch block complete. Successfully blocked: successCount/total"\<close>

datatype console =
    LogBlocked string
  | WarnFailed string "jsval option"
  | ErrorNetwork string
  | LogFound nat
  | LogExpandClicking
  | LogExpandNotFound

datatype event =
    Alert notice
  | Confirm nat
  | Console console
  | QuerySelector string
  | QuerySelectorAll string
  | Click
  | Fetch string string
  | Sleep nat
  | CreateOverlay
  | SetStatus nat nat string
  | RemoveOverlay
  \<comment> \<open>what a run does, in the order it does it. \<open>Confirm n\<close> is the dialog showing the
      count \<open>n\<close>; \<open>Fetch fid csrf\<close> is the awaited POST with these two parameters;
      \<open>Sleep ms\<close> is \<^verbatim>\<open>await sleep(ms)\<close>; \<open>SetStatus k n u\<close> writes
      "Blocking: k/n UID: u" into the overlay.\<close>

subsection \<open>Configuration and environment\<close>

definition containerSelector :: string where
  "containerSelector = ''.recommend-list-v1''"

definition expandBtnSelector :: string where
  "expandBtnSelector = ''.recommend-list-v1 .rec-footer''"

definition upLinkSelector :: string where
  "upLinkSelector = ''.video-page-card-small .upname a''"

definition blockInterval :: nat where
  "blockInterval = 300"

definition expandWaitTime :: nat where
  "expandWaitTime = 1500"

record dom =
  container :: "string list option"
  expandBtn :: "bool option"
  \<comment> \<open>\<open>container\<close>: \<open>None\<close> when \<^verbatim>\<open>document.querySelector(containerSelector)\<close> is
      \<^verbatim>\<open>null\<close>, else the resolved \<^verbatim>\<open>href\<close> of every element that
      \<^verbatim>\<open>container.querySelectorAll(upLinkSelector)\<close> returns, in document order.
      \<open>expandBtn\<close>: \<open>None\<close> when \<^verbatim>\<open>document.querySelector(expandBtnSelector)\<close> is
      \<^verbatim>\<open>null\<close>, else whether the element's \<^verbatim>\<open>offsetParent\<close> is not \<^verbatim>\<open>null\<close>.\<close>

record env =
  cookie :: string
  page :: dom
  page_expanded :: dom
  fetch :: "string \<Rightarrow> fetch_outcome"
  confirm :: bool
  \<comment> \<open>\<open>cookie\<close>: \<^verbatim>\<open>document.cookie\<close> when the script loads. \<open>page\<close>: the DOM when
      the button is pressed. \<open>page_expanded\<close>: the DOM after the expand control was
      clicked and the wait is over. \<open>fetch\<close>: how the endpoint answers the request
      for a \<^verbatim>\<open>fid\<close>. \<open>confirm\<close>: the user's answer to the confirmation dialog.\<close>

definition csrf_token :: "env \<Rightarrow> string option" where
  \<comment> \<open>\<^verbatim>\<open>const csrf_token = getCsrfToken();\<close>\<close>
  "csrf_token e = getCsrfToken (cookie e)"

section \<open>blockUser\<close>

definition not_logged_in :: "block_result \<times> event list" where
  "not_logged_in = (\<lparr>success = False, uid = None, msg = Some (JStr ''Not Logged In'')\<rparr>, [])"

definition network_error :: "string \<Rightarrow> string \<Rightarrow> block_result \<times> event list" where
  \<comment> \<open>the \<^verbatim>\<open>catch\<close> block\<close>
  "network_error tok u =
     (\<lparr>success = False, uid = Some u, msg = Some (JStr ''Network Error'')\<rparr>,
      [Fetch u tok, Console (ErrorNetwork u)])"

definition blockUser :: "env \<Rightarrow> string \<Rightarrow> block_result \<times> event list" where
  "blockUser e u =
     (case csrf_token e of
        None \<Rightarrow> not_logged_in
      | Some tok \<Rightarrow>
          if tok = [] then not_logged_in
          else
            (case fetch e u of
               Rejected \<Rightarrow> network_error tok u
             | Response status body \<Rightarrow>
                 (case body of
                    None \<Rightarrow> network_error tok u
                  | Some data \<Rightarrow>
                      (case get_prop data ''code'' of
                         TypeError \<Rightarrow> network_error tok u
                       | Value code \<Rightarrow>
                           if code = Some (JNum 0) then
                             (\<lparr>success = True, uid = Some u, msg = None\<rparr>,
                              [Fetch u tok, Console (LogBlocked u)])
                           else
                             (case get_prop data ''message'' of
                                TypeError \<Rightarrow> network_error tok u
                              | Value m \<Rightarrow>
                                  if stringifies m then
                                    (\<lparr>success = False, uid = Some u, msg = m\<rparr>,
                                     [Fetch u tok, Console (WarnFailed u m)])
                                  else network_error tok u)))))"

section \<open>getRecommendationUids\<close>

definition set_add :: "string list \<Rightarrow> string \<Rightarrow> string list" where
  \<comment> \<open>\<^verbatim>\<open>uids.add(uid)\<close> on a \<^verbatim>\<open>Set\<close>, kept as the list of its elements in insertion order\<close>
  "set_add uids u = (if u \<in> set uids then uids else uids @ [u])"

definition collect_link :: "string list \<Rightarrow> string \<Rightarrow> string list" where
  \<comment> \<open>the callback of \<^verbatim>\<open>links.forEach\<close>: \<^verbatim>\<open>if (uid) uids.add(uid)\<close>\<close>
  "collect_link uids href =
     (let r = parseUidFromUrl href in
      if falsy r then uids else (case r of None \<Rightarrow> uids | Some u \<Rightarrow> set_add uids u))"

definition getRecommendationUids :: "dom \<Rightarrow> string list \<times> event list" where
  \<comment> \<open>\<^verbatim>\<open>src/main.js\<close>\<close>
  "getRecommendationUids d =
     (case container d of
        None \<Rightarrow> ([], [QuerySelector containerSelector, Alert ContainerNotFound])
      | Some links \<Rightarrow>
          (let uids = foldl collect_link [] links in
           (uids, [QuerySelector containerSelector, QuerySelectorAll upLinkSelector,
                   Console (LogFound (length uids))])))"

definition getRecommendationUids_p0 :: "dom \<Rightarrow> string list \<times> event list" where
  \<comment> \<open>\<^verbatim>\<open>src/unnamed/part_000\<close>: \<^verbatim>\<open>if (!container) return [];\<close>\<close>
  "getRecommendationUids_p0 d =
     (case container d of
        None \<Rightarrow> ([], [QuerySelector containerSelector])
      | Some links \<Rightarrow>
          (let uids = foldl collect_link [] links in
           (uids, [QuerySelector containerSelector, QuerySelectorAll upLinkSelector,
                   Console (LogFound (length uids))])))"

definition expandListIfNeeded :: "env \<Rightarrow> dom \<times> event list" where
  \<comment> \<open>\<^verbatim>\<open>src/unnamed/part_000\<close>; returns the DOM the rest of the run sees\<close>
  "expandListIfNeeded e =
     (case expandBtn (page e) of
        None \<Rightarrow> (page e, [QuerySelector expandBtnSelector, Console LogExpandNotFound])
      | Some visible \<Rightarrow>
          if visible then
            (page_expanded e,
             [QuerySelector expandBtnSelector, Console LogExpandClicking, Click,
              Sleep expandWaitTime])
          else (page e, [QuerySelector expandBtnSelector, Console LogExpandNotFound]))"

section \<open>startBatchBlock\<close>

type_synonym loop_state = "nat \<times> int \<times> event list"
  \<comment> \<open>the loop variable \<^verbatim>\<open>i\<close>, \<^verbatim>\<open>successCount\<close>, and what the loop has done so far\<close>

definition iteration :: "env \<Rightarrow> string list \<Rightarrow> loop_state \<Rightarrow> loop_state" where
  \<comment> \<open>one pass through the body of the \<^verbatim>\<open>for\<close> loop, with its \<^verbatim>\<open>i++\<close>; entered
      only when \<open>i < length uidArray\<close>\<close>
  "iteration e uidArray st =
     (case st of (i, successCount, tr) \<Rightarrow>
        (let u = uidArray ! i in
         case blockUser e u of (result, evs) \<Rightarrow>
           (i + 1,
            (if success result then successCount + 1 else successCount),
            tr @ [SetStatus (i + 1) (length uidArray) u] @ evs @ [Sleep blockInterval])))"

function for_loop :: "env \<Rightarrow> string list \<Rightarrow> loop_state \<Rightarrow> loop_state" where
  "for_loop e uidArray st =
     (if fst st < length uidArray then for_loop e uidArray (iteration e uidArray st) else st)"
  by pat_completeness auto
termination
  by (relation "measure (\<lambda>(e, uidArray, st). length uidArray - fst st)")
     (auto simp: iteration_def Let_def split: prod.splits)

declare for_loop.simps [simp del]

definition batch :: "env \<Rightarrow> string list \<Rightarrow> event list" where
  \<comment> \<open>steps 4 to 6 of \<^verbatim>\<open>startBatchBlock\<close>, the same in both variants\<close>
  "batch e uidArray =
     (case for_loop e uidArray (0, 0, []) of (i, successCount, tr) \<Rightarrow>
        [CreateOverlay] @ tr @
        [RemoveOverlay, Alert (BatchComplete successCount (length uidArray))])"

definition startBatchBlock :: "env \<Rightarrow> event list" where
  \<comment> \<open>\<^verbatim>\<open>src/main.js\<close>\<close>
  "startBatchBlock e =
     (if falsy (csrf_token e) then [Alert PleaseLogin]
      else
        (case getRecommendationUids (page e) of (uidArray, evs) \<Rightarrow>
           if length uidArray = 0 then evs @ [Alert NoCreatorsWait]
           else if \<not> confirm e then evs @ [Confirm (length uidArray)]
           else evs @ [Confirm (length uidArray)] @ batch e uidArray))"

definition startBatchBlock_p0 :: "env \<Rightarrow> event list" where
  \<comment> \<open>\<^verbatim>\<open>src/unnamed/part_000\<close>\<close>
  "startBatchBlock_p0 e =
     (if falsy (csrf_token e) then [Alert PleaseLogin]
      else
        (case expandListIfNeeded e of (d, xevs) \<Rightarrow>
           (case getRecommendationUids_p0 d of (uidArray, evs) \<Rightarrow>
              if length uidArray = 0 then xevs @ evs @ [Alert NoCreatorsCheckPage]
              else if \<not> confirm e then xevs @ evs @ [Confirm (length uidArray)]
              else xevs @ evs @ [Confirm (length uidArray)] @ batch e uidArray)))"

subsection \<open>Example environments\<close>

definition page_abc :: dom where
  \<comment> \<open>four links: creators 1, 2, 1 again, 3; the expand control is shown\<close>
  "page_abc =
     \<lparr>container = Some [''https://space.bilibili.com/1'', ''https://space.bilibili.com/2?x'',
                         ''//space.bilibili.com/1/'', ''https://space.bilibili.com/3''],
      expandBtn = Some True\<rparr>"

definition page_without_container :: dom where
  "page_without_container = \<lparr>container = None, expandBtn = None\<rparr>"

definition env_abc :: env where
  \<comment> \<open>logged in; the endpoint answers \<^verbatim>\<open>{code: -6}\<close> for creator 3 and
      \<^verbatim>\<open>{code: 0, message: "0"}\<close> for everyone else; the user confirms\<close>
  "env_abc =
     \<lparr>cookie = ''sid=1; bili_jct=tok123; lang=en'',
      page = page_abc,
      page_expanded = page_abc\<lparr>expandBtn := Some False\<rparr>,
      fetch = (\<lambda>u. if u = ''3'' then Response 200 (Some (JObj [(''code'', JNum (- 6))]))
                     else Response 200 (Some (JObj [(''code'', JNum 0), (''message'', JStr ''0'')]))),
      confirm = True\<rparr>"

definition env_no_credential :: env where
  \<comment> \<open>as \<open>env_abc\<close>, but the cookie has no \<^verbatim>\<open>bili_jct\<close>\<close>
  "env_no_credential = env_abc\<lparr>cookie := ''sid=1; lang=en''\<rparr>"

definition env_rate_limited :: env where
  \<comment> \<open>as \<open>env_abc\<close>, but every request is answered with HTTP 412 and a JSON body\<close>
  "env_rate_limited =
     env_abc\<lparr>fetch := (\<lambda>u. Response 412
        (Some (JObj [(''code'', JNum (- 412)), (''message'', JStr ''request was banned'')])))\<rparr>"

definition env_odd_message :: env where
  \<comment> \<open>as \<open>env_abc\<close>, but every request is answered with
      \<^verbatim>\<open>{"code": -6, "message": {"toString": 0}}\<close>\<close>
  "env_odd_message =
     env_abc\<lparr>fetch := (\<lambda>u. Response 200
        (Some (JObj [(''code'', JNum (- 6)), (''message'', JObj [(''toString'', JNum 0)])])))\<rparr>"

definition env_offline :: env where
  \<comment> \<open>as \<open>env_abc\<close>, but no request gets a response\<close>
  "env_offline = env_abc\<lparr>fetch := (\<lambda>u. Rejected)\<rparr>"

definition env_no_container :: env where
  \<comment> \<open>as \<open>env_abc\<close>, on a page without the recommendation list\<close>
  "env_no_container =
     env_abc\<lparr>page := page_without_container, page_expanded := page_without_container\<rparr>"

section \<open>Notions the properties are stated with\<close>

text \<open>
  None of the following is code of the script. They say, in terms of positions in a
  string and of list indices, what the properties below are about.
\<close>

definition occurs_at :: "string \<Rightarrow> nat \<Rightarrow> string \<Rightarrow> bool" where
  \<comment> \<open>the text \<open>pat\<close> stands in \<open>s\<close> at position \<open>j\<close>\<close>
  "occurs_at pat j s \<longleftrightarrow> take (length pat) (drop j s) = pat"

definition digit_run_after :: "nat \<Rightarrow> string \<Rightarrow> string" where
  \<comment> \<open>the digits that follow an occurrence of the host marker at position \<open>j\<close>\<close>
  "digit_run_after j s = takeWhile is_digit (drop (j + length space_marker) s)"

definition id_segment_at :: "nat \<Rightarrow> string \<Rightarrow> bool" where
  \<comment> \<open>a numeric-id segment: the host marker at position \<open>j\<close>, a digit right after it\<close>
  "id_segment_at j s \<longleftrightarrow> occurs_at space_marker j s \<and> digit_run_after j s \<noteq> []"

definition profile_ids :: "string list \<Rightarrow> string list" where
  \<comment> \<open>the identifiers the links carry, link by link; a link whose URL holds no
      numeric-id segment carries none and is no profile link\<close>
  "profile_ids links = List.map_filter parseUidFromUrl links"

definition first_occurrences :: "'a list \<Rightarrow> 'a list" where
  \<comment> \<open>the elements at the positions where they occur for the first time, in order\<close>
  "first_occurrences xs =
     map (\<lambda>k. xs ! k) (filter (\<lambda>k. xs ! k \<notin> set (take k xs)) [0..<length xs])"

definition duplicates :: "'a list \<Rightarrow> nat" where
  \<comment> \<open>the number of positions that repeat an element of an earlier position\<close>
  "duplicates xs = length (filter (\<lambda>k. xs ! k \<in> set (take k xs)) [0..<length xs])"

definition blocked :: "env \<Rightarrow> string \<Rightarrow> bool" where
  \<comment> \<open>the block call for \<open>u\<close> gives a success result\<close>
  "blocked e u = success (fst (blockUser e u))"

definition pass_events :: "env \<Rightarrow> string list \<Rightarrow> nat \<Rightarrow> event list" where
  \<comment> \<open>one identifier's turn, the one at index \<open>j\<close>: the progress text, then what the
      block call does, then the wait\<close>
  "pass_events e uidArray j =
     SetStatus (j + 1) (length uidArray) (uidArray ! j) #
     snd (blockUser e (uidArray ! j)) @ [Sleep blockInterval]"

definition after_passes :: "env \<Rightarrow> string list \<Rightarrow> nat \<Rightarrow> loop_state" where
  \<comment> \<open>the state of the loop when its body has run \<open>k\<close> times\<close>
  "after_passes e uidArray k = (iteration e uidArray ^^ k) (0, 0, [])"

definition counter :: "loop_state \<Rightarrow> int" where
  \<comment> \<open>\<^verbatim>\<open>successCount\<close> in a state of the loop\<close>
  "counter st = fst (snd st)"

section \<open>The URL parser\<close>

lemma starts_with_take:
  "starts_with lit s = (if take (length lit) s = lit then Some (drop (length lit) s) else None)"
  by (induction lit s rule: starts_with.induct) auto

lemma match_here_eq:
  "match_here lit cls s =
     (if take (length lit) s = lit \<and> takeWhile cls (drop (length lit) s) \<noteq> []
      then Some (takeWhile cls (drop (length lit) s)) else None)"
  by (simp add: match_here_def starts_with_take Let_def)

lemma match_here_run:
  "match_here lit cls s = Some g \<Longrightarrow> g \<noteq> [] \<and> (\<forall>c\<in>set g. cls c)"
  by (auto simp: match_here_eq split: if_splits dest: set_takeWhileD)

lemma regex_match_run:
  "regex_match lit cls s = Some g \<Longrightarrow> g \<noteq> [] \<and> (\<forall>c\<in>set g. cls c)"
  by (induction lit cls s rule: regex_match.induct)
     (auto split: option.splits dest: match_here_run)

lemma regex_match_None_iff:
  "regex_match lit cls s = None \<longleftrightarrow> (\<forall>j. match_here lit cls (drop j s) = None)"
proof (induction s)
  case Nil
  then show ?case by simp
next
  case (Cons c cs)
  have "(\<forall>j. match_here lit cls (drop j (c # cs)) = None) \<longleftrightarrow>
        match_here lit cls (c # cs) = None \<and> (\<forall>j. match_here lit cls (drop j cs) = None)"
    (is "?L \<longleftrightarrow> ?R")
  proof
    assume l: ?L
    have "match_here lit cls (drop 0 (c # cs)) = None" using l by blast
    moreover have "match_here lit cls (drop j cs) = None" for j
      using l [rule_format, of "Suc j"] by simp
    ultimately show ?R by simp
  next
    assume r: ?R
    show ?L
    proof
      fix j show "match_here lit cls (drop j (c # cs)) = None"
        using r by (cases j) auto
    qed
  qed
  then show ?case using Cons by (auto split: option.splits)
qed

lemma regex_match_first:
  "match_here lit cls (drop j s) = Some g \<Longrightarrow>
   (\<forall>k<j. match_here lit cls (drop k s) = None) \<Longrightarrow>
   regex_match lit cls s = Some g"
proof (induction s arbitrary: j)
  case Nil
  then show ?case by simp
next
  case (Cons c cs)
  show ?case
  proof (cases j)
    case 0
    then show ?thesis using Cons.prems by simp
  next
    case (Suc j')
    have here: "match_here lit cls (c # cs) = None"
      using Cons.prems(2) [rule_format, of 0] Suc by simp
    have later: "\<forall>k<j'. match_here lit cls (drop k cs) = None"
    proof (intro allI impI)
      fix k assume "k < j'"
      then show "match_here lit cls (drop k cs) = None"
        using Cons.prems(2) [rule_format, of "Suc k"] Suc by simp
    qed
    have "regex_match lit cls cs = Some g"
      using Cons.IH [of j'] Cons.prems(1) Suc later by simp
    then show ?thesis using here by simp
  qed
qed

lemma match_here_segment:
  "match_here space_marker is_digit (drop j s) =
     (if id_segment_at j s then Some (digit_run_after j s) else None)"
  by (simp add: match_here_eq id_segment_at_def occurs_at_def digit_run_after_def add.commute)

lemma parseUidFromUrl_None_iff:
  "parseUidFromUrl s = None \<longleftrightarrow> (\<forall>j. \<not> id_segment_at j s)"
  by (simp add: parseUidFromUrl_def regex_match_None_iff match_here_segment)

lemma parseUidFromUrl_digits:
  "parseUidFromUrl s = Some d \<Longrightarrow> d \<noteq> [] \<and> (\<forall>c\<in>set d. is_digit c)"
  using regex_match_run [of space_marker is_digit s d] by (simp add: parseUidFromUrl_def)

lemma nat_less_cases3: "(\<forall>k<(3::nat). P k) \<longleftrightarrow> P 0 \<and> P 1 \<and> P 2"
  by (auto simp: less_Suc_eq numeral_3_eq_3 numeral_2_eq_2)

text \<open>
  C9, as the code has it. For every input the parser returns \<^verbatim>\<open>null\<close> or a non-empty
  string of decimal digits. The pattern is unanchored: the parser returns \<^verbatim>\<open>null\<close>
  exactly when no position of the string holds the host marker followed by a digit,
  and otherwise it returns the whole digit run after the first position that holds the
  host marker followed by a digit, wherever in the string that position is. (An
  earlier occurrence of the marker that no digit follows is passed over.)
\<close>

theorem parseUidFromUrl_unanchored:
  "(parseUidFromUrl s = None \<longleftrightarrow> (\<forall>j. \<not> id_segment_at j s)) \<and>
   (\<forall>j. id_segment_at j s \<and> (\<forall>k<j. \<not> id_segment_at k s) \<longrightarrow>
        parseUidFromUrl s = Some (digit_run_after j s)) \<and>
   (\<forall>d. parseUidFromUrl s = Some d \<longrightarrow> d \<noteq> [] \<and> (\<forall>c\<in>set d. is_digit c))"
proof (intro conjI allI impI)
  show "parseUidFromUrl s = None \<longleftrightarrow> (\<forall>j. \<not> id_segment_at j s)"
    by (rule parseUidFromUrl_None_iff)
next
  fix j assume "id_segment_at j s \<and> (\<forall>k<j. \<not> id_segment_at k s)"
  then show "parseUidFromUrl s = Some (digit_run_after j s)"
    unfolding parseUidFromUrl_def
    by (intro regex_match_first [of _ _ j]) (simp_all add: match_here_segment)
next
  fix d assume "parseUidFromUrl s = Some d"
  then show "d \<noteq> []" "\<forall>c\<in>set d. is_digit c"
    using parseUidFromUrl_digits by simp_all
qed

text \<open>
  The marker inside a query parameter, at position 3, and once more further on: the
  parser returns the digits after the first of the two.
\<close>

theorem parseUidFromUrl_unanchored_witness:
  "id_segment_at 3 ''?u=space.bilibili.com/42&x=space.bilibili.com/7'' \<and>
   digit_run_after 3 ''?u=space.bilibili.com/42&x=space.bilibili.com/7'' = ''42'' \<and>
   parseUidFromUrl ''?u=space.bilibili.com/42&x=space.bilibili.com/7'' = Some ''42''"
proof -
  let ?s = "''?u=space.bilibili.com/42&x=space.bilibili.com/7''"
  have seg: "id_segment_at 3 ?s"
    by (simp add: id_segment_at_def occurs_at_def digit_run_after_def space_marker_def is_digit_def)
  have run: "digit_run_after 3 ?s = ''42''"
    by (simp add: digit_run_after_def space_marker_def is_digit_def)
  have first: "\<forall>k<3. \<not> id_segment_at k ?s"
    unfolding nat_less_cases3
    by (simp add: id_segment_at_def occurs_at_def space_marker_def)
  have "parseUidFromUrl ?s = Some (digit_run_after 3 ?s)"
    using parseUidFromUrl_unanchored [of ?s] seg first by blast
  then show ?thesis using seg run by simp
qed

text \<open>
  C9 as it is worded fails: here the first occurrence of the host marker is at
  position 0 and no digit follows it, yet the parser returns neither \<^verbatim>\<open>null\<close> nor
  that (empty) digit run, but the digits after the second occurrence.
\<close>

theorem parseUidFromUrl_first_occurrence_counterexample:
  "occurs_at space_marker 0 ''space.bilibili.com/?u=space.bilibili.com/42'' \<and>
   digit_run_after 0 ''space.bilibili.com/?u=space.bilibili.com/42'' = [] \<and>
   parseUidFromUrl ''space.bilibili.com/?u=space.bilibili.com/42'' = Some ''42''"
  by (simp add: occurs_at_def digit_run_after_def parseUidFromUrl_def space_marker_def
      match_here_def is_digit_def)

section \<open>The extractor\<close>

lemma first_occurrences_Nil: "first_occurrences [] = []"
  by (simp add: first_occurrences_def)

lemma duplicates_Nil: "duplicates [] = 0"
  by (simp add: duplicates_def)

lemma earlier_snoc:
  "k < length xs \<Longrightarrow> (xs @ [x]) ! k \<in> set (take k (xs @ [x])) \<longleftrightarrow> xs ! k \<in> set (take k xs)"
  by (simp add: nth_append)

lemma first_occurrences_snoc:
  "first_occurrences (xs @ [x]) = first_occurrences xs @ (if x \<in> set xs then [] else [x])"
proof -
  let ?ys = "xs @ [x]"
  let ?new = "\<lambda>k. ?ys ! k \<notin> set (take k ?ys)"
  have f: "filter ?new [0..<length xs] = filter (\<lambda>k. xs ! k \<notin> set (take k xs)) [0..<length xs]"
    by (rule filter_cong [OF refl]) (simp add: nth_append)
  have m: "map ((!) ?ys) (filter (\<lambda>k. xs ! k \<notin> set (take k xs)) [0..<length xs]) =
           map ((!) xs) (filter (\<lambda>k. xs ! k \<notin> set (take k xs)) [0..<length xs])"
    by (rule map_cong [OF refl]) (simp add: nth_append)
  have l: "map ((!) ?ys) (filter ?new [length xs]) = (if x \<in> set xs then [] else [x])"
    by simp
  have "first_occurrences ?ys = map ((!) ?ys) (filter ?new ([0..<length xs] @ [length xs]))"
    unfolding first_occurrences_def by (simp only: length_append_singleton upt_Suc_append le0)
  also have "\<dots> = map ((!) ?ys) (filter ?new [0..<length xs]) @ map ((!) ?ys) (filter ?new [length xs])"
    by (simp only: filter_append map_append)
  also have "\<dots> = first_occurrences xs @ (if x \<in> set xs then [] else [x])"
    unfolding first_occurrences_def f m l ..
  finally show ?thesis .
qed

lemma duplicates_snoc:
  "duplicates (xs @ [x]) = duplicates xs + (if x \<in> set xs then 1 else 0)"
proof -
  let ?ys = "xs @ [x]"
  let ?old = "\<lambda>k. ?ys ! k \<in> set (take k ?ys)"
  have f: "filter ?old [0..<length xs] = filter (\<lambda>k. xs ! k \<in> set (take k xs)) [0..<length xs]"
    by (rule filter_cong [OF refl]) (simp add: nth_append)
  have l: "length (filter ?old [length xs]) = (if x \<in> set xs then 1 else 0)"
    by simp
  have "duplicates ?ys = length (filter ?old ([0..<length xs] @ [length xs]))"
    unfolding duplicates_def by (simp only: length_append_singleton upt_Suc_append le0)
  also have "\<dots> = length (filter ?old [0..<length xs]) + length (filter ?old [length xs])"
    by (simp only: filter_append length_append)
  also have "\<dots> = duplicates xs + (if x \<in> set xs then 1 else 0)"
    unfolding duplicates_def f l ..
  finally show ?thesis .
qed

lemma set_first_occurrences: "set (first_occurrences xs) = set xs"
  by (induction xs rule: rev_induct) (auto simp: first_occurrences_snoc first_occurrences_Nil)

lemma distinct_first_occurrences: "distinct (first_occurrences xs)"
  by (induction xs rule: rev_induct)
     (auto simp: first_occurrences_snoc set_first_occurrences first_occurrences_Nil)

lemma length_first_occurrences:
  "length (first_occurrences xs) + duplicates xs = length xs"
  by (induction xs rule: rev_induct)
     (auto simp: first_occurrences_snoc duplicates_snoc first_occurrences_Nil duplicates_Nil)

lemma foldl_set_add: "foldl set_add [] xs = first_occurrences xs"
proof (induction xs rule: rev_induct)
  case Nil
  then show ?case by (simp add: first_occurrences_Nil)
next
  case (snoc x xs)
  then show ?case
    by (simp add: first_occurrences_snoc set_add_def set_first_occurrences)
qed

lemma collect_link_eq:
  "collect_link uids href =
     (case parseUidFromUrl href of None \<Rightarrow> uids | Some u \<Rightarrow> set_add uids u)"
  by (auto simp: collect_link_def falsy_def Let_def split: option.splits
      dest: parseUidFromUrl_digits)

lemma foldl_collect_link:
  "foldl collect_link acc links = foldl set_add acc (profile_ids links)"
  by (induction links arbitrary: acc)
     (auto simp: profile_ids_def collect_link_eq split: option.splits)

lemma profile_ids_digits:
  "u \<in> set (profile_ids links) \<Longrightarrow> u \<noteq> [] \<and> (\<forall>c\<in>set u. is_digit c)"
proof -
  assume "u \<in> set (profile_ids links)"
  then obtain href where "parseUidFromUrl href = Some u"
    by (auto simp: profile_ids_def List.map_filter_def)
  then show ?thesis by (rule parseUidFromUrl_digits)
qed

text \<open>
  C4. When the container is there, both variants of the extractor return the
  identifiers of the profile links in DOM order, each at its first occurrence only:
  with \<open>N\<close> profile links of which \<open>D\<close> repeat an earlier identifier that is
  \<open>N - D\<close> pairwise different strings, and each is a non-empty string of digits.
\<close>

theorem getRecommendationUids_unique:
  assumes "container d = Some links"
  shows "fst (getRecommendationUids d) = first_occurrences (profile_ids links) \<and>
         fst (getRecommendationUids_p0 d) = first_occurrences (profile_ids links) \<and>
         duplicates (profile_ids links) \<le> length (profile_ids links) \<and>
         length (fst (getRecommendationUids d)) =
           length (profile_ids links) - duplicates (profile_ids links) \<and>
         distinct (fst (getRecommendationUids d)) \<and>
         (\<forall>u\<in>set (fst (getRecommendationUids d)). u \<noteq> [] \<and> (\<forall>c\<in>set u. is_digit c))"
proof -
  have r: "fst (getRecommendationUids d) = first_occurrences (profile_ids links)"
    using assms by (simp add: getRecommendationUids_def Let_def foldl_collect_link foldl_set_add)
  have r0: "fst (getRecommendationUids_p0 d) = first_occurrences (profile_ids links)"
    using assms by (simp add: getRecommendationUids_p0_def Let_def foldl_collect_link foldl_set_add)
  have len: "length (first_occurrences (profile_ids links)) + duplicates (profile_ids links)
               = length (profile_ids links)"
    by (rule length_first_occurrences)
  have dig: "\<forall>u\<in>set (first_occurrences (profile_ids links)). u \<noteq> [] \<and> (\<forall>c\<in>set u. is_digit c)"
    using profile_ids_digits by (simp add: set_first_occurrences)
  show ?thesis
    using len dig by (simp add: r r0 distinct_first_occurrences)
qed

theorem getRecommendationUids_unique_witness:
  "container \<lparr>container = Some [''https://space.bilibili.com/7?a'',
       ''https://www.bilibili.com/video/BV1'', ''https://space.bilibili.com/12/'',
       ''//space.bilibili.com/7''], expandBtn = None\<rparr> =
     Some [''https://space.bilibili.com/7?a'', ''https://www.bilibili.com/video/BV1'',
       ''https://space.bilibili.com/12/'', ''//space.bilibili.com/7''] \<and>
   profile_ids [''https://space.bilibili.com/7?a'', ''https://www.bilibili.com/video/BV1'',
       ''https://space.bilibili.com/12/'', ''//space.bilibili.com/7''] = [''7'', ''12'', ''7''] \<and>
   duplicates [''7'', ''12'', ''7''] = 1 \<and>
   fst (getRecommendationUids \<lparr>container = Some [''https://space.bilibili.com/7?a'',
       ''https://www.bilibili.com/video/BV1'', ''https://space.bilibili.com/12/'',
       ''//space.bilibili.com/7''], expandBtn = None\<rparr>) = [''7'', ''12''] \<and>
   fst (getRecommendationUids_p0 \<lparr>container = Some [''https://space.bilibili.com/7?a'',
       ''https://www.bilibili.com/video/BV1'', ''https://space.bilibili.com/12/'',
       ''//space.bilibili.com/7''], expandBtn = None\<rparr>) = [''7'', ''12'']"
proof -
  let ?links = "[''https://space.bilibili.com/7?a'', ''https://www.bilibili.com/video/BV1'',
       ''https://space.bilibili.com/12/'', ''//space.bilibili.com/7'']"
  let ?d = "\<lparr>container = Some ?links, expandBtn = None\<rparr>"
  have c: "container ?d = Some ?links" by simp
  have ids: "profile_ids ?links = [''7'', ''12'', ''7'']"
    by (simp add: profile_ids_def parseUidFromUrl_def space_marker_def match_here_def
        is_digit_def)
  have dup: "duplicates [''7'', ''12'', ''7''] = 1"
    by (simp add: duplicates_def upt_rec)
  have occ: "first_occurrences [''7'', ''12'', ''7''] = [''7'', ''12'']"
    by (simp add: first_occurrences_def upt_rec)
  have "fst (getRecommendationUids ?d) = first_occurrences (profile_ids ?links)"
       "fst (getRecommendationUids_p0 ?d) = first_occurrences (profile_ids ?links)"
    using getRecommendationUids_unique [OF c] by blast+
  then show ?thesis using c ids dup occ by simp
qed

lemma no_segment_by_positions:
  "list_all (\<lambda>j. \<not> id_segment_at j s) [0..<length s] \<Longrightarrow> \<forall>j. \<not> id_segment_at j s"
proof
  fix j assume a: "list_all (\<lambda>j. \<not> id_segment_at j s) [0..<length s]"
  show "\<not> id_segment_at j s"
  proof (cases "j < length s")
    case True
    then show ?thesis using a by (simp add: list_all_iff)
  next
    case False
    then show ?thesis by (simp add: id_segment_at_def occurs_at_def space_marker_def)
  qed
qed

lemma nat_less_cases8:
  "(\<forall>k<(8::nat). P k) \<longleftrightarrow> P 0 \<and> P 1 \<and> P 2 \<and> P 3 \<and> P 4 \<and> P 5 \<and> P 6 \<and> P 7"
proof -
  have "k < 8 \<longleftrightarrow> k = 0 \<or> k = 1 \<or> k = 2 \<or> k = 3 \<or> k = 4 \<or> k = 5 \<or> k = 6 \<or> k = 7" for k :: nat
    by arith
  then show ?thesis by auto
qed

lemma takeWhile_run:
  "\<forall>c\<in>set ds. P c \<Longrightarrow> r = [] \<or> \<not> P (hd r) \<Longrightarrow> takeWhile P (ds @ r) = ds"
  by (cases r) auto

lemma parse_profile_url:
  assumes "ds \<noteq> []" "\<forall>c\<in>set ds. is_digit c" "r = [] \<or> \<not> is_digit (hd r)"
  shows "parseUidFromUrl (''https://space.bilibili.com/'' @ ds @ r) = Some ds"
proof -
  let ?s = "''https://space.bilibili.com/'' @ ds @ r"
  have tw: "takeWhile is_digit (ds @ r) = ds"
    using assms(2,3) by (rule takeWhile_run)
  have run: "digit_run_after 8 ?s = ds"
    by (simp add: digit_run_after_def space_marker_def tw)
  have seg: "id_segment_at 8 ?s"
    using assms(1) run by (simp add: id_segment_at_def) (simp add: occurs_at_def space_marker_def)
  have first: "\<forall>k<8. \<not> id_segment_at k ?s"
    unfolding nat_less_cases8 by (simp add: id_segment_at_def occurs_at_def space_marker_def)
  have "match_here space_marker is_digit (drop 8 ?s) = Some ds"
    using seg run by (simp only: match_here_segment if_True)
  moreover have "\<forall>k<8. match_here space_marker is_digit (drop k ?s) = None"
    using first by (simp only: match_here_segment) simp
  ultimately show ?thesis
    unfolding parseUidFromUrl_def by (rule regex_match_first)
qed

text \<open>
  C5. The profile URL of the specification parses to \<open>''123456''\<close>, and so does
  every URL of that form: \<^verbatim>\<open>https://space.bilibili.com/\<close>, a non-empty run of digits,
  then nothing or something that does not start with a digit, parses to that run of
  digits. A URL with no
  numeric-id segment (at no position the host marker followed by a digit) parses to
  \<^verbatim>\<open>null\<close>; the extractor passes such a link over: the set of identifiers is left as it
  was, and the extractor returns what it returns for the container without that link,
  in either variant.
\<close>

theorem parseUidFromUrl_round_trip:
  "parseUidFromUrl ''https://space.bilibili.com/123456?from=rec'' = Some ''123456'' \<and>
   (ds \<noteq> [] \<and> (\<forall>c\<in>set ds. is_digit c) \<and> (r = [] \<or> \<not> is_digit (hd r)) \<longrightarrow>
      parseUidFromUrl (''https://space.bilibili.com/'' @ ds @ r) = Some ds) \<and>
   ((\<forall>j. \<not> id_segment_at j url) \<longrightarrow>
      parseUidFromUrl url = None \<and>
      collect_link uids url = uids \<and>
      getRecommendationUids (d\<lparr>container := Some (before @ url # after)\<rparr>) =
        getRecommendationUids (d\<lparr>container := Some (before @ after)\<rparr>) \<and>
      getRecommendationUids_p0 (d\<lparr>container := Some (before @ url # after)\<rparr>) =
        getRecommendationUids_p0 (d\<lparr>container := Some (before @ after)\<rparr>))"
proof (intro conjI impI)
  show "parseUidFromUrl ''https://space.bilibili.com/123456?from=rec'' = Some ''123456''"
    by (simp add: parseUidFromUrl_def space_marker_def match_here_def is_digit_def)
next
  assume "ds \<noteq> [] \<and> (\<forall>c\<in>set ds. is_digit c) \<and> (r = [] \<or> \<not> is_digit (hd r))"
  then show "parseUidFromUrl (''https://space.bilibili.com/'' @ ds @ r) = Some ds"
    by (intro parse_profile_url) blast+
next
  assume "\<forall>j. \<not> id_segment_at j url"
  then show n: "parseUidFromUrl url = None"
    by (simp add: parseUidFromUrl_None_iff)
  then show c: "collect_link uids url = uids" for uids
    by (simp add: collect_link_eq)
  have "foldl collect_link [] (before @ url # after) = foldl collect_link [] (before @ after)"
    by (simp add: c)
  then show "getRecommendationUids (d\<lparr>container := Some (before @ url # after)\<rparr>) =
        getRecommendationUids (d\<lparr>container := Some (before @ after)\<rparr>)"
     "getRecommendationUids_p0 (d\<lparr>container := Some (before @ url # after)\<rparr>) =
        getRecommendationUids_p0 (d\<lparr>container := Some (before @ after)\<rparr>)"
    by (simp_all add: getRecommendationUids_def getRecommendationUids_p0_def)
qed

theorem parseUidFromUrl_round_trip_witness:
  "parseUidFromUrl (''https://space.bilibili.com/'' @ ''42'' @ ''/'') = Some ''42'' \<and>
   parseUidFromUrl ''https://space.bilibili.com/abc'' = None \<and>
   collect_link [''7''] ''https://space.bilibili.com/abc'' = [''7'']"
proof -
  have "list_all (\<lambda>j. \<not> id_segment_at j ''https://space.bilibili.com/abc'')
          [0..<length ''https://space.bilibili.com/abc'']"
    by (simp add: upt_rec id_segment_at_def occurs_at_def space_marker_def
        digit_run_after_def is_digit_def)
  then have "\<forall>j. \<not> id_segment_at j ''https://space.bilibili.com/abc''"
    by (rule no_segment_by_positions)
  moreover have "''42'' \<noteq> [] \<and> (\<forall>c\<in>set ''42''. is_digit c) \<and>
      (''/'' = [] \<or> \<not> is_digit (hd ''/''))"
    by (simp add: is_digit_def)
  ultimately show ?thesis
    using parseUidFromUrl_round_trip
      [of "''42''" "''/''" "''https://space.bilibili.com/abc''" "[''7'']"]
    by blast
qed

section \<open>The blocker\<close>

lemma tok123_nonempty: "''tok123'' \<noteq> []"
  by simp

lemma csrf_token_env_abc: "csrf_token env_abc = Some ''tok123''"
  by (simp add: csrf_token_def getCsrfToken_def env_abc_def match_here_def not_semicolon_def)

lemma csrf_token_env_no_credential: "csrf_token env_no_credential = None"
  by (simp add: csrf_token_def getCsrfToken_def env_no_credential_def env_abc_def
      match_here_def not_semicolon_def)

lemma csrf_token_env_rate_limited: "csrf_token env_rate_limited = Some ''tok123''"
  using csrf_token_env_abc by (simp add: csrf_token_def env_rate_limited_def)

lemma csrf_token_env_odd_message: "csrf_token env_odd_message = Some ''tok123''"
  using csrf_token_env_abc by (simp add: csrf_token_def env_odd_message_def)

lemma csrf_token_env_offline: "csrf_token env_offline = Some ''tok123''"
  using csrf_token_env_abc by (simp add: csrf_token_def env_offline_def)

lemma csrf_token_env_no_container: "csrf_token env_no_container = Some ''tok123''"
  using csrf_token_env_abc by (simp add: csrf_token_def env_no_container_def)

lemma regex_match_nonempty: "regex_match lit cls s \<noteq> Some []"
  using regex_match_run [of lit cls s "[]"] by auto

lemma falsy_csrf_token: "falsy (csrf_token e) \<longleftrightarrow> csrf_token e = None"
  using regex_match_nonempty [of "''bili_jct=''" not_semicolon "cookie e"]
  by (auto simp: falsy_def csrf_token_def getCsrfToken_def split: option.splits)

lemma blockUser_falsy: "falsy (csrf_token e) \<Longrightarrow> blockUser e u = not_logged_in"
  by (auto simp: blockUser_def falsy_def split: option.splits)

lemma blockUser_cases:
  assumes "csrf_token e = Some tok" "tok \<noteq> []"
  shows "blockUser e u =
     (case fetch e u of
        Rejected \<Rightarrow> network_error tok u
      | Response status body \<Rightarrow>
          (case body of
             None \<Rightarrow> network_error tok u
           | Some data \<Rightarrow>
               (case get_prop data ''code'' of
                  TypeError \<Rightarrow> network_error tok u
                | Value code \<Rightarrow>
                    if code = Some (JNum 0) then
                      (\<lparr>success = True, uid = Some u, msg = None\<rparr>,
                       [Fetch u tok, Console (LogBlocked u)])
                    else
                      (case get_prop data ''message'' of
                         TypeError \<Rightarrow> network_error tok u
                       | Value m \<Rightarrow>
                           if stringifies m then
                             (\<lparr>success = False, uid = Some u, msg = m\<rparr>,
                              [Fetch u tok, Console (WarnFailed u m)])
                           else network_error tok u))))"
  using assms by (simp add: blockUser_def)

lemma not_falsy_token: "\<not> falsy (csrf_token e) \<Longrightarrow> \<exists>tok. csrf_token e = Some tok \<and> tok \<noteq> []"
  by (auto simp: falsy_def split: option.splits)

text \<open>
  C2. With no credential (the cookie gives \<^verbatim>\<open>null\<close>, or an empty string), the block
  operation returns, for every identifier, the failure "Not Logged In" and does nothing
  else: no request is issued. The orchestrator of either variant shows the alert
  "Please login to Bilibili first." and does nothing else: no DOM query, no click, no
  confirmation dialog, no overlay, no request and no wait.
\<close>

theorem no_credential:
  assumes "falsy (csrf_token e)"
  shows "blockUser e u =
           (\<lparr>success = False, uid = None, msg = Some (JStr ''Not Logged In'')\<rparr>, []) \<and>
         startBatchBlock e = [Alert PleaseLogin] \<and>
         startBatchBlock_p0 e = [Alert PleaseLogin]"
  using assms
  by (simp add: blockUser_falsy not_logged_in_def startBatchBlock_def startBatchBlock_p0_def)

theorem no_credential_witness:
  "falsy (csrf_token env_no_credential) \<and>
   blockUser env_no_credential ''7'' =
     (\<lparr>success = False, uid = None, msg = Some (JStr ''Not Logged In'')\<rparr>, []) \<and>
   startBatchBlock env_no_credential = [Alert PleaseLogin] \<and>
   startBatchBlock_p0 env_no_credential = [Alert PleaseLogin]"
proof -
  have f: "falsy (csrf_token env_no_credential)"
    by (simp add: csrf_token_env_no_credential falsy_def)
  show ?thesis using no_credential [OF f, of "''7''"] f by simp
qed

text \<open>
  C3, as the code has it. With a credential, the result of the block operation is
  decided by the JSON body alone; the HTTP status is never looked at. When the promise
  of \<^verbatim>\<open>fetch\<close> rejects, or the body is not JSON, or it is the JSON value \<^verbatim>\<open>null\<close>, the
  result is the failure "Network Error". When the body's \<^verbatim>\<open>code\<close> is the number 0 the
  result is a success. For every other body the code writes the body's \<^verbatim>\<open>message\<close>
  into the text of a console warning: when the message converts to a string (every
  string, number, boolean, \<^verbatim>\<open>null\<close>, a missing message, an object with no own
  \<^verbatim>\<open>toString\<close>, an array of such values) the result is a failure that carries the
  message (\<^verbatim>\<open>undefined\<close> when the body has none); when the conversion throws, the
  result is the failure "Network Error" again. In each case one request is issued, and
  one line is written to the console.
\<close>

theorem blockUser_response:
  assumes "csrf_token e = Some tok" "tok \<noteq> []"
  shows
    "(fetch e u = Rejected \<or> fetch e u = Response status None \<or>
      fetch e u = Response status (Some JNull) \<longrightarrow>
        fst (blockUser e u) =
          \<lparr>success = False, uid = Some u, msg = Some (JStr ''Network Error'')\<rparr>) \<and>
     (fetch e u = Response status (Some data) \<and>
      get_prop data ''code'' = Value (Some (JNum 0)) \<longrightarrow>
        fst (blockUser e u) = \<lparr>success = True, uid = Some u, msg = None\<rparr>) \<and>
     (fetch e u = Response status (Some data) \<and> get_prop data ''code'' = Value code \<and>
      code \<noteq> Some (JNum 0) \<and> get_prop data ''message'' = Value m \<and> stringifies m \<longrightarrow>
        fst (blockUser e u) = \<lparr>success = False, uid = Some u, msg = m\<rparr>) \<and>
     (fetch e u = Response status (Some data) \<and> get_prop data ''code'' = Value code \<and>
      code \<noteq> Some (JNum 0) \<and> get_prop data ''message'' = Value m \<and> \<not> stringifies m \<longrightarrow>
        fst (blockUser e u) =
          \<lparr>success = False, uid = Some u, msg = Some (JStr ''Network Error'')\<rparr>) \<and>
     (\<exists>c. snd (blockUser e u) = [Fetch u tok, Console c])"
  unfolding blockUser_cases [OF assms]
  by (auto simp: network_error_def split: fetch_outcome.splits option.splits outcome.splits)

theorem blockUser_response_witness:
  "fst (blockUser env_offline ''1'') =
     \<lparr>success = False, uid = Some ''1'', msg = Some (JStr ''Network Error'')\<rparr> \<and>
   fst (blockUser env_abc ''1'') = \<lparr>success = True, uid = Some ''1'', msg = None\<rparr> \<and>
   fst (blockUser env_abc ''3'') = \<lparr>success = False, uid = Some ''3'', msg = None\<rparr> \<and>
   fst (blockUser env_odd_message ''1'') =
     \<lparr>success = False, uid = Some ''1'', msg = Some (JStr ''Network Error'')\<rparr>"
proof -
  have "fetch env_offline ''1'' = Rejected"
    by (simp add: env_offline_def)
  then have a: "fst (blockUser env_offline ''1'') =
      \<lparr>success = False, uid = Some ''1'', msg = Some (JStr ''Network Error'')\<rparr>"
    using blockUser_response [OF csrf_token_env_offline, of "''1''"] by simp
  have "fetch env_abc ''1'' =
          Response 200 (Some (JObj [(''code'', JNum 0), (''message'', JStr ''0'')])) \<and>
        get_prop (JObj [(''code'', JNum 0), (''message'', JStr ''0'')]) ''code'' =
          Value (Some (JNum 0))"
    by (simp add: env_abc_def)
  then have b: "fst (blockUser env_abc ''1'') = \<lparr>success = True, uid = Some ''1'', msg = None\<rparr>"
    using blockUser_response [OF csrf_token_env_abc, of "''1''" 200
        "JObj [(''code'', JNum 0), (''message'', JStr ''0'')]"]
    by blast
  have "fetch env_abc ''3'' = Response 200 (Some (JObj [(''code'', JNum (- 6))])) \<and>
        get_prop (JObj [(''code'', JNum (- 6))]) ''code'' = Value (Some (JNum (- 6))) \<and>
        Some (JNum (- 6)) \<noteq> Some (JNum 0) \<and>
        get_prop (JObj [(''code'', JNum (- 6))]) ''message'' = Value None \<and>
        stringifies None"
    by (simp add: env_abc_def stringifies_def)
  then have c: "fst (blockUser env_abc ''3'') = \<lparr>success = False, uid = Some ''3'', msg = None\<rparr>"
    using blockUser_response [OF csrf_token_env_abc, of "''3''" 200
        "JObj [(''code'', JNum (- 6))]" "Some (JNum (- 6))" None]
    by blast
  have "fetch env_odd_message ''1'' = Response 200
          (Some (JObj [(''code'', JNum (- 6)), (''message'', JObj [(''toString'', JNum 0)])])) \<and>
        get_prop (JObj [(''code'', JNum (- 6)), (''message'', JObj [(''toString'', JNum 0)])])
          ''code'' = Value (Some (JNum (- 6))) \<and>
        Some (JNum (- 6)) \<noteq> Some (JNum 0) \<and>
        get_prop (JObj [(''code'', JNum (- 6)), (''message'', JObj [(''toString'', JNum 0)])])
          ''message'' = Value (Some (JObj [(''toString'', JNum 0)])) \<and>
        \<not> stringifies (Some (JObj [(''toString'', JNum 0)]))"
    by (simp add: env_odd_message_def stringifies_def)
  then have d: "fst (blockUser env_odd_message ''1'') =
      \<lparr>success = False, uid = Some ''1'', msg = Some (JStr ''Network Error'')\<rparr>"
    using blockUser_response [OF csrf_token_env_odd_message, of "''1''" 200
        "JObj [(''code'', JNum (- 6)), (''message'', JObj [(''toString'', JNum 0)])]"
        "Some (JNum (- 6))" "Some (JObj [(''toString'', JNum 0)])"]
    by blast
  show ?thesis using a b c d by simp
qed

text \<open>
  C3 as it is worded fails for a response outside 2xx whose body is JSON: the answer
  here has HTTP status 412, and the result is not the failure "Network Error" but a
  failure with the message of the body.
\<close>

theorem blockUser_non_2xx_counterexample:
  "fetch env_rate_limited ''42'' = Response 412
     (Some (JObj [(''code'', JNum (- 412)), (''message'', JStr ''request was banned'')])) \<and>
   fst (blockUser env_rate_limited ''42'') =
     \<lparr>success = False, uid = Some ''42'', msg = Some (JStr ''request was banned'')\<rparr> \<and>
   msg (fst (blockUser env_rate_limited ''42'')) \<noteq> Some (JStr ''Network Error'')"
proof -
  have f: "fetch env_rate_limited ''42'' = Response 412
     (Some (JObj [(''code'', JNum (- 412)), (''message'', JStr ''request was banned'')]))"
    by (simp add: env_rate_limited_def)
  show ?thesis
    unfolding blockUser_cases [OF csrf_token_env_rate_limited tok123_nonempty] f
    by (simp add: stringifies_def)
qed

text \<open>
  C7, as the code has it. The result always has its success flag. Whenever a
  credential is present, the result carries the identifier of the attempted target. A
  success carries no message. A failure carries "Not Logged In", or "Network Error",
  or what the \<^verbatim>\<open>message\<close> of the response body is, which is \<^verbatim>\<open>undefined\<close> when the
  body has none.
\<close>

theorem blockUser_result_shape:
  "(\<not> falsy (csrf_token e) \<longrightarrow> uid (fst (blockUser e u)) = Some u) \<and>
   (falsy (csrf_token e) \<longrightarrow>
      \<not> success (fst (blockUser e u)) \<and>
      msg (fst (blockUser e u)) = Some (JStr ''Not Logged In'')) \<and>
   (success (fst (blockUser e u)) \<longrightarrow> msg (fst (blockUser e u)) = None) \<and>
   (\<not> success (fst (blockUser e u)) \<longrightarrow>
      msg (fst (blockUser e u)) = Some (JStr ''Not Logged In'') \<or>
      msg (fst (blockUser e u)) = Some (JStr ''Network Error'') \<or>
      (\<exists>status data. fetch e u = Response status (Some data) \<and>
         get_prop data ''message'' = Value (msg (fst (blockUser e u)))))"
proof (cases "falsy (csrf_token e)")
  case True
  then show ?thesis by (simp add: blockUser_falsy not_logged_in_def)
next
  case False
  then obtain tok where tok: "csrf_token e = Some tok" "tok \<noteq> []"
    using not_falsy_token by blast
  show ?thesis
    using False unfolding blockUser_cases [OF tok]
    by (auto simp: network_error_def split: fetch_outcome.splits option.splits outcome.splits)
qed

theorem blockUser_result_shape_witness:
  "\<not> falsy (csrf_token env_abc) \<and>
   success (fst (blockUser env_abc ''1'')) \<and>
   uid (fst (blockUser env_abc ''1'')) = Some ''1'' \<and>
   msg (fst (blockUser env_abc ''1'')) = None \<and>
   falsy (csrf_token env_no_credential) \<and>
   \<not> success (fst (blockUser env_no_credential ''1'')) \<and>
   msg (fst (blockUser env_no_credential ''1'')) = Some (JStr ''Not Logged In'')"
proof -
  have t: "\<not> falsy (csrf_token env_abc)"
    by (simp add: csrf_token_env_abc falsy_def)
  have "fetch env_abc ''1'' =
          Response 200 (Some (JObj [(''code'', JNum 0), (''message'', JStr ''0'')]))"
    by (simp add: env_abc_def)
  then have s: "success (fst (blockUser env_abc ''1''))"
    unfolding blockUser_cases [OF csrf_token_env_abc tok123_nonempty] by simp
  have f: "falsy (csrf_token env_no_credential)"
    by (simp add: csrf_token_env_no_credential falsy_def)
  show ?thesis
    using blockUser_result_shape [of env_abc "''1''"]
      blockUser_result_shape [of env_no_credential "''1''"] t s f
    by blast
qed

text \<open>
  C7 as it is worded fails twice. Without a credential the result has no identifier.
  And the failure for the answer \<^verbatim>\<open>{code: -6}\<close>, a body with no \<^verbatim>\<open>message\<close>, has no
  message.
\<close>

theorem blockUser_result_shape_counterexample:
  "uid (fst (blockUser env_no_credential ''3'')) = None \<and>
   \<not> success (fst (blockUser env_abc ''3'')) \<and>
   msg (fst (blockUser env_abc ''3'')) = None"
proof -
  have f: "fetch env_abc ''3'' = Response 200 (Some (JObj [(''code'', JNum (- 6))]))"
    by (simp add: env_abc_def)
  have n: "falsy (csrf_token env_no_credential)"
    by (simp add: csrf_token_env_no_credential falsy_def)
  show ?thesis
    unfolding blockUser_cases [OF csrf_token_env_abc tok123_nonempty] blockUser_falsy [OF n] f
    by (simp add: not_logged_in_def stringifies_def)
qed

section \<open>The batch loop and the orchestrator\<close>

lemma iteration_eq:
  "iteration e us (i, c, tr) =
     (Suc i, (if blocked e (us ! i) then c + 1 else c), tr @ pass_events e us i)"
  by (simp add: iteration_def pass_events_def blocked_def Let_def split: prod.splits)

lemma after_passes_0: "after_passes e us 0 = (0, 0, [])"
  by (simp add: after_passes_def)

lemma after_passes_Suc:
  "after_passes e us (Suc k) = iteration e us (after_passes e us k)"
  by (simp add: after_passes_def)

lemma after_passes_eq:
  "after_passes e us k =
     (k, int (length (filter (blocked e) (map (\<lambda>j. us ! j) [0..<k]))),
      concat (map (pass_events e us) [0..<k]))"
  by (induction k) (simp_all add: after_passes_0 after_passes_Suc iteration_eq)

lemma for_loop_funpow:
  "fst st \<le> length us \<Longrightarrow>
   for_loop e us st = (iteration e us ^^ (length us - fst st)) st"
proof (induction e us st rule: for_loop.induct)
  case (1 e us st)
  show ?case
  proof (cases "fst st < length us")
    case True
    obtain i c tr where st: "st = (i, c, tr)" by (cases st)
    have f: "fst (iteration e us st) = Suc (fst st)"
      by (simp add: st iteration_eq)
    have "for_loop e us st = for_loop e us (iteration e us st)"
      using True by (subst for_loop.simps) simp
    also have "\<dots> = (iteration e us ^^ (length us - Suc (fst st))) (iteration e us st)"
      using "1.IH" [OF True] True f by simp
    also have "\<dots> = (iteration e us ^^ Suc (length us - Suc (fst st))) st"
      by (simp only: funpow_Suc_right o_apply)
    also have "Suc (length us - Suc (fst st)) = length us - fst st"
      using True by simp
    finally show ?thesis .
  next
    case False
    then have "for_loop e us st = st" by (subst for_loop.simps) simp
    then show ?thesis using False "1.prems" by simp
  qed
qed

lemma for_loop_after: "for_loop e us (0, 0, []) = after_passes e us (length us)"
  using for_loop_funpow [of "(0, 0, [])" us e] by (simp add: after_passes_def)

lemma for_loop_eq:
  "for_loop e us (0, 0, []) =
     (length us, int (length (filter (blocked e) us)), concat (map (pass_events e us) [0..<length us]))"
  by (simp add: for_loop_after after_passes_eq map_nth)

lemma batch_eq:
  "batch e us =
     CreateOverlay # concat (map (pass_events e us) [0..<length us]) @
     [RemoveOverlay, Alert (BatchComplete (int (length (filter (blocked e) us))) (length us))]"
  by (simp add: batch_def for_loop_eq)

lemma blockUser_events:
  "snd (blockUser e u) = [] \<or> (\<exists>tok c. snd (blockUser e u) = [Fetch u tok, Console c])"
proof (cases "falsy (csrf_token e)")
  case True
  then show ?thesis by (simp add: blockUser_falsy not_logged_in_def)
next
  case False
  then obtain tok where tok: "csrf_token e = Some tok" "tok \<noteq> []"
    using not_falsy_token by blast
  show ?thesis
    unfolding blockUser_cases [OF tok]
    by (auto simp: network_error_def split: fetch_outcome.splits option.splits outcome.splits)
qed

lemma pass_events_kinds:
  "ev \<in> set (pass_events e us j) \<Longrightarrow>
     (\<exists>k n u. ev = SetStatus k n u) \<or> (\<exists>u t. ev = Fetch u t) \<or> (\<exists>c. ev = Console c) \<or>
     ev = Sleep blockInterval"
  using blockUser_events [of e "us ! j"] by (auto simp: pass_events_def)

lemma batch_kinds:
  "ev \<in> set (batch e us) \<Longrightarrow>
     ev = CreateOverlay \<or> ev = RemoveOverlay \<or>
     ev = Alert (BatchComplete (int (length (filter (blocked e) us))) (length us)) \<or>
     (\<exists>k n u. ev = SetStatus k n u) \<or> (\<exists>u t. ev = Fetch u t) \<or> (\<exists>c. ev = Console c) \<or>
     ev = Sleep blockInterval"
  unfolding batch_eq using pass_events_kinds [of ev e us] by auto

lemma extractor_kinds:
  "ev \<in> set (snd (getRecommendationUids d)) \<Longrightarrow>
     (\<exists>q. ev = QuerySelector q) \<or> (\<exists>q. ev = QuerySelectorAll q) \<or> (\<exists>c. ev = Console c) \<or>
     ev = Alert ContainerNotFound"
  by (auto simp: getRecommendationUids_def Let_def split: option.splits)

lemma extractor_p0_kinds:
  "ev \<in> set (snd (getRecommendationUids_p0 d)) \<Longrightarrow>
     (\<exists>q. ev = QuerySelector q) \<or> (\<exists>q. ev = QuerySelectorAll q) \<or> (\<exists>c. ev = Console c)"
  by (auto simp: getRecommendationUids_p0_def Let_def split: option.splits)

lemma expand_cases:
  "expandListIfNeeded e =
     (if expandBtn (page e) = Some True
      then (page_expanded e,
            [QuerySelector expandBtnSelector, Console LogExpandClicking, Click,
             Sleep expandWaitTime])
      else (page e, [QuerySelector expandBtnSelector, Console LogExpandNotFound]))"
  by (auto simp: expandListIfNeeded_def split: option.splits)

lemma startBatchBlock_eq:
  "startBatchBlock e =
     (if falsy (csrf_token e) then [Alert PleaseLogin]
      else snd (getRecommendationUids (page e)) @
        (if fst (getRecommendationUids (page e)) = [] then [Alert NoCreatorsWait]
         else Confirm (length (fst (getRecommendationUids (page e)))) #
           (if confirm e then batch e (fst (getRecommendationUids (page e))) else [])))"
  by (simp add: startBatchBlock_def split: prod.splits)

lemma startBatchBlock_p0_eq:
  "startBatchBlock_p0 e =
     (if falsy (csrf_token e) then [Alert PleaseLogin]
      else snd (expandListIfNeeded e) @
        snd (getRecommendationUids_p0 (fst (expandListIfNeeded e))) @
        (if fst (getRecommendationUids_p0 (fst (expandListIfNeeded e))) = []
         then [Alert NoCreatorsCheckPage]
         else Confirm (length (fst (getRecommendationUids_p0 (fst (expandListIfNeeded e))))) #
           (if confirm e
            then batch e (fst (getRecommendationUids_p0 (fst (expandListIfNeeded e))))
            else [])))"
  by (simp add: startBatchBlock_p0_def split: prod.splits)

lemma summary_in_batch:
  "Alert (BatchComplete c n) \<in> set (batch e us) \<Longrightarrow> 0 \<le> c \<and> c \<le> int n"
proof -
  assume "Alert (BatchComplete c n) \<in> set (batch e us)"
  then have "c = int (length (filter (blocked e) us)) \<and> n = length us"
    using batch_kinds [of "Alert (BatchComplete c n)" e us] by auto
  then show ?thesis by simp
qed

lemma summary_in_run:
  "Alert (BatchComplete c n) \<in> set (startBatchBlock e) \<Longrightarrow> 0 \<le> c \<and> c \<le> int n"
  unfolding startBatchBlock_eq
  using extractor_kinds [of "Alert (BatchComplete c n)" "page e"] summary_in_batch [of c n e]
  by (auto split: if_splits)

lemma summary_in_run_p0:
  "Alert (BatchComplete c n) \<in> set (startBatchBlock_p0 e) \<Longrightarrow> 0 \<le> c \<and> c \<le> int n"
  unfolding startBatchBlock_p0_eq
  using extractor_p0_kinds [of "Alert (BatchComplete c n)" "fst (expandListIfNeeded e)"]
    summary_in_batch [of c n e]
  by (auto simp: expand_cases split: if_splits)

lemma blocked_env_abc: "blocked env_abc ''1'' \<and> blocked env_abc ''2'' \<and> \<not> blocked env_abc ''3''"
proof -
  have "fetch env_abc ''1'' =
          Response 200 (Some (JObj [(''code'', JNum 0), (''message'', JStr ''0'')]))"
       "fetch env_abc ''2'' =
          Response 200 (Some (JObj [(''code'', JNum 0), (''message'', JStr ''0'')]))"
       "fetch env_abc ''3'' = Response 200 (Some (JObj [(''code'', JNum (- 6))]))"
    by (simp_all add: env_abc_def)
  then show ?thesis
    unfolding blocked_def blockUser_cases [OF csrf_token_env_abc tok123_nonempty]
    by (simp add: stringifies_def)
qed

lemma uids_env_abc:
  "getRecommendationUids (page env_abc) =
     ([''1'', ''2'', ''3''],
      [QuerySelector containerSelector, QuerySelectorAll upLinkSelector, Console (LogFound 3)])"
  by (simp add: getRecommendationUids_def env_abc_def page_abc_def collect_link_def set_add_def
      falsy_def parseUidFromUrl_def space_marker_def match_here_def is_digit_def)

text \<open>
  C10. The counter is 0 before the first pass. The loop ends in the state reached
  after as many passes as there are identifiers. After \<open>k\<close> passes, \<open>k\<close> identifiers
  have been processed and the counter lies between 0 and \<open>k\<close>. A pass adds 1 to the
  counter when its block call gives a success result and leaves it as it is otherwise.
  Every final summary that a run of either variant shows reports a number of
  successes between 0 and the total it reports.
\<close>

theorem success_counter_bounds:
  "counter (after_passes e us 0) = 0 \<and>
   for_loop e us (0, 0, []) = after_passes e us (length us) \<and>
   (k \<le> length us \<longrightarrow>
      fst (after_passes e us k) = k \<and>
      0 \<le> counter (after_passes e us k) \<and> counter (after_passes e us k) \<le> int k) \<and>
   (k < length us \<longrightarrow>
      counter (after_passes e us (Suc k)) =
        counter (after_passes e us k) + (if success (fst (blockUser e (us ! k))) then 1 else 0)) \<and>
   (\<forall>c n. Alert (BatchComplete c n) \<in> set (startBatchBlock e) \<or>
          Alert (BatchComplete c n) \<in> set (startBatchBlock_p0 e) \<longrightarrow> 0 \<le> c \<and> c \<le> int n)"
proof (intro conjI allI impI)
  show "counter (after_passes e us 0) = 0"
    by (simp add: after_passes_0 counter_def)
  show "for_loop e us (0, 0, []) = after_passes e us (length us)"
    by (rule for_loop_after)
  show "fst (after_passes e us k) = k"
    by (simp add: after_passes_eq)
  show "0 \<le> counter (after_passes e us k)"
    by (simp add: after_passes_eq counter_def)
  have "length (filter (blocked e) (map (\<lambda>j. us ! j) [0..<k])) \<le> length (map (\<lambda>j. us ! j) [0..<k])"
    by (rule length_filter_le)
  then show "counter (after_passes e us k) \<le> int k"
    by (simp add: after_passes_eq counter_def)
  show "counter (after_passes e us (Suc k)) =
        counter (after_passes e us k) + (if success (fst (blockUser e (us ! k))) then 1 else 0)"
    by (simp add: after_passes_eq counter_def blocked_def)
next
  fix c n
  assume "Alert (BatchComplete c n) \<in> set (startBatchBlock e) \<or>
          Alert (BatchComplete c n) \<in> set (startBatchBlock_p0 e)"
  then show "0 \<le> c" "c \<le> int n"
    using summary_in_run summary_in_run_p0 by blast+
qed

theorem success_counter_bounds_witness:
  "fst (after_passes env_abc [''3'', ''1''] 1) = 1 \<and>
   counter (after_passes env_abc [''3'', ''1''] 1) \<le> 1 \<and>
   counter (after_passes env_abc [''3'', ''1''] (Suc 1)) =
     counter (after_passes env_abc [''3'', ''1''] 1) + 1 \<and>
   Alert (BatchComplete 2 3) \<in> set (startBatchBlock env_abc)"
proof -
  have k: "(1::nat) \<le> length [''3'', ''1'']" "(1::nat) < length [''3'', ''1'']"
    by simp_all
  have s: "success (fst (blockUser env_abc ([''3'', ''1''] ! 1)))"
    using blocked_env_abc by (simp add: blocked_def)
  have "\<not> falsy (csrf_token env_abc)"
    by (simp add: csrf_token_env_abc falsy_def)
  moreover have "confirm env_abc"
    by (simp add: env_abc_def)
  moreover have "int (length (filter (blocked env_abc) [''1'', ''2'', ''3''])) = 2"
    using blocked_env_abc by simp
  ultimately have a: "Alert (BatchComplete 2 3) \<in> set (startBatchBlock env_abc)"
    by (simp add: startBatchBlock_eq uids_env_abc batch_eq)
  show ?thesis
    using success_counter_bounds [of env_abc "[''3'', ''1'']" 1] k s a by simp
qed

lemma expand_env_abc:
  "expandListIfNeeded env_abc =
     (page_abc\<lparr>expandBtn := Some False\<rparr>,
      [QuerySelector expandBtnSelector, Console LogExpandClicking, Click, Sleep expandWaitTime])"
  by (simp add: expand_cases env_abc_def page_abc_def)

lemma uids_p0_env_abc:
  "getRecommendationUids_p0 (page_abc\<lparr>expandBtn := Some False\<rparr>) =
     ([''1'', ''2'', ''3''],
      [QuerySelector containerSelector, QuerySelectorAll upLinkSelector, Console (LogFound 3)])"
  by (simp add: getRecommendationUids_p0_def page_abc_def collect_link_def set_add_def
      falsy_def parseUidFromUrl_def space_marker_def match_here_def is_digit_def)

text \<open>
  C1. Whatever the endpoint answers and whatever the list, the loop makes one pass per
  identifier, in the order of the list: the progress text, the block call (awaited: what
  it does is over before the next event), then the wait of \<open>blockInterval\<close>
  milliseconds; the counter ends as the number of identifiers whose call gave a success
  result. No outcome of a call ends the loop early. A run of either variant that gets
  a non-empty list from its extractor and the user's confirmation is what comes before
  the loop, the overlay, these passes, the removal of the overlay and the summary. For
  the list \<open>[A, B, C]\<close> with a JSON answer of code 0 for \<open>A\<close> and \<open>B\<close> and of code
  -6 for \<open>C\<close>: the requests go out for \<open>A\<close>, \<open>B\<close>, \<open>C\<close> in this order, each
  followed by the wait, also the failed one, and the summary reports 2 of 3. (The
  console line for \<open>C\<close> is the warning with the message of the answer, or the
  network-error line when that message does not convert to a string.)
\<close>

theorem batch_run_in_order:
  "for_loop e us (0, 0, []) =
     (length us, int (length (filter (blocked e) us)),
      concat (map (pass_events e us) [0..<length us])) \<and>
   batch e us =
     CreateOverlay # concat (map (pass_events e us) [0..<length us]) @
     [RemoveOverlay, Alert (BatchComplete (int (length (filter (blocked e) us))) (length us))] \<and>
   (\<not> falsy (csrf_token e) \<and> fst (getRecommendationUids (page e)) = us \<and> us \<noteq> [] \<and>
    confirm e \<longrightarrow>
      startBatchBlock e =
        snd (getRecommendationUids (page e)) @ Confirm (length us) # batch e us) \<and>
   (\<not> falsy (csrf_token e) \<and>
    fst (getRecommendationUids_p0 (fst (expandListIfNeeded e))) = us \<and> us \<noteq> [] \<and>
    confirm e \<longrightarrow>
      startBatchBlock_p0 e =
        snd (expandListIfNeeded e) @
        snd (getRecommendationUids_p0 (fst (expandListIfNeeded e))) @
        Confirm (length us) # batch e us) \<and>
   (csrf_token e = Some tok \<and> tok \<noteq> [] \<and>
    fetch e A = Response sa (Some (JObj oa)) \<and> map_of oa ''code'' = Some (JNum 0) \<and>
    fetch e B = Response sb (Some (JObj ob)) \<and> map_of ob ''code'' = Some (JNum 0) \<and>
    fetch e C = Response sc (Some (JObj oc)) \<and> map_of oc ''code'' = Some (JNum (- 6)) \<longrightarrow>
    for_loop e [A, B, C] (0, 0, []) =
      (3, 2,
       [SetStatus 1 3 A, Fetch A tok, Console (LogBlocked A), Sleep blockInterval,
        SetStatus 2 3 B, Fetch B tok, Console (LogBlocked B), Sleep blockInterval,
        SetStatus 3 3 C, Fetch C tok,
        Console (if stringifies (map_of oc ''message'')
                 then WarnFailed C (map_of oc ''message'') else ErrorNetwork C),
        Sleep blockInterval]) \<and>
    batch e [A, B, C] =
      [CreateOverlay,
       SetStatus 1 3 A, Fetch A tok, Console (LogBlocked A), Sleep blockInterval,
       SetStatus 2 3 B, Fetch B tok, Console (LogBlocked B), Sleep blockInterval,
       SetStatus 3 3 C, Fetch C tok,
       Console (if stringifies (map_of oc ''message'')
                then WarnFailed C (map_of oc ''message'') else ErrorNetwork C),
       Sleep blockInterval,
       RemoveOverlay, Alert (BatchComplete 2 3)])"
proof (intro conjI impI)
  show "for_loop e us (0, 0, []) =
     (length us, int (length (filter (blocked e) us)),
      concat (map (pass_events e us) [0..<length us]))"
    by (rule for_loop_eq)
  show "batch e us =
     CreateOverlay # concat (map (pass_events e us) [0..<length us]) @
     [RemoveOverlay, Alert (BatchComplete (int (length (filter (blocked e) us))) (length us))]"
    by (rule batch_eq)
next
  assume "\<not> falsy (csrf_token e) \<and> fst (getRecommendationUids (page e)) = us \<and> us \<noteq> [] \<and>
    confirm e"
  then show "startBatchBlock e =
        snd (getRecommendationUids (page e)) @ Confirm (length us) # batch e us"
    by (simp add: startBatchBlock_eq)
next
  assume "\<not> falsy (csrf_token e) \<and>
    fst (getRecommendationUids_p0 (fst (expandListIfNeeded e))) = us \<and> us \<noteq> [] \<and>
    confirm e"
  then show "startBatchBlock_p0 e =
        snd (expandListIfNeeded e) @
        snd (getRecommendationUids_p0 (fst (expandListIfNeeded e))) @
        Confirm (length us) # batch e us"
    by (simp add: startBatchBlock_p0_eq)
next
  assume h: "csrf_token e = Some tok \<and> tok \<noteq> [] \<and>
    fetch e A = Response sa (Some (JObj oa)) \<and> map_of oa ''code'' = Some (JNum 0) \<and>
    fetch e B = Response sb (Some (JObj ob)) \<and> map_of ob ''code'' = Some (JNum 0) \<and>
    fetch e C = Response sc (Some (JObj oc)) \<and> map_of oc ''code'' = Some (JNum (- 6))"
  then have tok: "csrf_token e = Some tok" "tok \<noteq> []" by simp_all
  have a: "blockUser e A = (\<lparr>success = True, uid = Some A, msg = None\<rparr>,
                           [Fetch A tok, Console (LogBlocked A)])"
    using h by (simp add: blockUser_cases [OF tok])
  have b: "blockUser e B = (\<lparr>success = True, uid = Some B, msg = None\<rparr>,
                           [Fetch B tok, Console (LogBlocked B)])"
    using h by (simp add: blockUser_cases [OF tok])
  have c: "\<not> success (fst (blockUser e C)) \<and>
           snd (blockUser e C) =
             [Fetch C tok,
              Console (if stringifies (map_of oc ''message'')
                       then WarnFailed C (map_of oc ''message'') else ErrorNetwork C)]"
    using h by (simp add: blockUser_cases [OF tok] network_error_def)
  have up: "[0..<length [A, B, C]] = [0, 1, 2]"
    by (simp add: upt_rec)
  show l: "for_loop e [A, B, C] (0, 0, []) =
      (3, 2,
       [SetStatus 1 3 A, Fetch A tok, Console (LogBlocked A), Sleep blockInterval,
        SetStatus 2 3 B, Fetch B tok, Console (LogBlocked B), Sleep blockInterval,
        SetStatus 3 3 C, Fetch C tok,
        Console (if stringifies (map_of oc ''message'')
                 then WarnFailed C (map_of oc ''message'') else ErrorNetwork C),
        Sleep blockInterval])"
    unfolding for_loop_eq up
    by (simp add: pass_events_def blocked_def a b c)
  show "batch e [A, B, C] =
      [CreateOverlay,
       SetStatus 1 3 A, Fetch A tok, Console (LogBlocked A), Sleep blockInterval,
       SetStatus 2 3 B, Fetch B tok, Console (LogBlocked B), Sleep blockInterval,
       SetStatus 3 3 C, Fetch C tok,
       Console (if stringifies (map_of oc ''message'')
                then WarnFailed C (map_of oc ''message'') else ErrorNetwork C),
       Sleep blockInterval,
       RemoveOverlay, Alert (BatchComplete 2 3)]"
    by (simp add: batch_def l)
qed

text \<open>
  A whole run of either variant on a page with links to creators 1, 2, 1, 3, where the
  endpoint answers \<^verbatim>\<open>{code: -6}\<close> for creator 3.
\<close>

theorem batch_run_in_order_witness:
  "startBatchBlock env_abc =
     [QuerySelector containerSelector, QuerySelectorAll upLinkSelector, Console (LogFound 3),
      Confirm 3, CreateOverlay,
      SetStatus 1 3 ''1'', Fetch ''1'' ''tok123'', Console (LogBlocked ''1''), Sleep 300,
      SetStatus 2 3 ''2'', Fetch ''2'' ''tok123'', Console (LogBlocked ''2''), Sleep 300,
      SetStatus 3 3 ''3'', Fetch ''3'' ''tok123'', Console (WarnFailed ''3'' None), Sleep 300,
      RemoveOverlay, Alert (BatchComplete 2 3)] \<and>
   startBatchBlock_p0 env_abc =
     [QuerySelector expandBtnSelector, Console LogExpandClicking, Click, Sleep 1500,
      QuerySelector containerSelector, QuerySelectorAll upLinkSelector, Console (LogFound 3),
      Confirm 3, CreateOverlay,
      SetStatus 1 3 ''1'', Fetch ''1'' ''tok123'', Console (LogBlocked ''1''), Sleep 300,
      SetStatus 2 3 ''2'', Fetch ''2'' ''tok123'', Console (LogBlocked ''2''), Sleep 300,
      SetStatus 3 3 ''3'', Fetch ''3'' ''tok123'', Console (WarnFailed ''3'' None), Sleep 300,
      RemoveOverlay, Alert (BatchComplete 2 3)]"
proof -
  let ?us = "[''1'', ''2'', ''3'']"
  have h: "csrf_token env_abc = Some ''tok123'' \<and> ''tok123'' \<noteq> [] \<and>
    fetch env_abc ''1'' = Response 200 (Some (JObj [(''code'', JNum 0), (''message'', JStr ''0'')])) \<and>
    map_of [(''code'', JNum 0), (''message'', JStr ''0'')] ''code'' = Some (JNum 0) \<and>
    fetch env_abc ''2'' = Response 200 (Some (JObj [(''code'', JNum 0), (''message'', JStr ''0'')])) \<and>
    map_of [(''code'', JNum 0), (''message'', JStr ''0'')] ''code'' = Some (JNum 0) \<and>
    fetch env_abc ''3'' = Response 200 (Some (JObj [(''code'', JNum (- 6))])) \<and>
    map_of [(''code'', JNum (- 6))] ''code'' = Some (JNum (- 6))"
    using csrf_token_env_abc by (simp add: env_abc_def)
  have t: "\<not> falsy (csrf_token env_abc)"
    by (simp add: csrf_token_env_abc falsy_def)
  have c: "confirm env_abc"
    by (simp add: env_abc_def)
  have m: "\<not> falsy (csrf_token env_abc) \<and>
      fst (getRecommendationUids (page env_abc)) = ?us \<and> ?us \<noteq> [] \<and> confirm env_abc"
    using t c by (simp add: uids_env_abc)
  have p: "\<not> falsy (csrf_token env_abc) \<and>
      fst (getRecommendationUids_p0 (fst (expandListIfNeeded env_abc))) = ?us \<and> ?us \<noteq> [] \<and>
      confirm env_abc"
    using t c by (simp add: expand_env_abc uids_p0_env_abc)
  note inst = batch_run_in_order [of env_abc ?us "''tok123''" "''1''" 200
        "[(''code'', JNum 0), (''message'', JStr ''0'')]" "''2''" 200
        "[(''code'', JNum 0), (''message'', JStr ''0'')]" "''3''" 200
        "[(''code'', JNum (- 6))]"]
  have b: "batch env_abc ?us =
      [CreateOverlay,
       SetStatus 1 3 ''1'', Fetch ''1'' ''tok123'', Console (LogBlocked ''1''), Sleep blockInterval,
       SetStatus 2 3 ''2'', Fetch ''2'' ''tok123'', Console (LogBlocked ''2''), Sleep blockInterval,
       SetStatus 3 3 ''3'', Fetch ''3'' ''tok123'',
       Console (if stringifies (map_of [(''code'', JNum (- 6))] ''message'')
                then WarnFailed ''3'' (map_of [(''code'', JNum (- 6))] ''message'')
                else ErrorNetwork ''3''),
       Sleep blockInterval,
       RemoveOverlay, Alert (BatchComplete 2 3)]"
    using inst h by blast
  have r: "startBatchBlock env_abc =
      snd (getRecommendationUids (page env_abc)) @ Confirm (length ?us) # batch env_abc ?us"
    using inst m by blast
  have r0: "startBatchBlock_p0 env_abc =
      snd (expandListIfNeeded env_abc) @
      snd (getRecommendationUids_p0 (fst (expandListIfNeeded env_abc))) @
      Confirm (length ?us) # batch env_abc ?us"
    using inst p by blast
  show ?thesis
    unfolding r r0 b
    by (simp add: uids_env_abc expand_env_abc uids_p0_env_abc stringifies_def
        blockInterval_def expandWaitTime_def)
qed

text \<open>
  C6, as the code has it. Without the container the extractor returns the empty list;
  in \<^verbatim>\<open>src/main.js\<close> it first shows the alert "Container not found", in
  \<^verbatim>\<open>src/unnamed/part_000\<close> it shows and logs nothing. The orchestrator (with a
  credential) then shows its "No creators found" alert and ends: no confirmation
  dialog, no overlay, no request, no wait between requests.
\<close>

theorem container_absent:
  "(container d = None \<longrightarrow>
      getRecommendationUids d = ([], [QuerySelector containerSelector, Alert ContainerNotFound]) \<and>
      getRecommendationUids_p0 d = ([], [QuerySelector containerSelector])) \<and>
   (\<not> falsy (csrf_token e) \<and> container (page e) = None \<longrightarrow>
      startBatchBlock e =
        [QuerySelector containerSelector, Alert ContainerNotFound, Alert NoCreatorsWait]) \<and>
   (\<not> falsy (csrf_token e) \<and> container (fst (expandListIfNeeded e)) = None \<longrightarrow>
      startBatchBlock_p0 e =
        snd (expandListIfNeeded e) @
        [QuerySelector containerSelector, Alert NoCreatorsCheckPage])"
  by (simp add: getRecommendationUids_def getRecommendationUids_p0_def startBatchBlock_eq
      startBatchBlock_p0_eq)

theorem container_absent_witness:
  "container (page env_no_container) = None \<and>
   getRecommendationUids (page env_no_container) =
     ([], [QuerySelector containerSelector, Alert ContainerNotFound]) \<and>
   startBatchBlock env_no_container =
     [QuerySelector containerSelector, Alert ContainerNotFound, Alert NoCreatorsWait] \<and>
   startBatchBlock_p0 env_no_container =
     [QuerySelector expandBtnSelector, Console LogExpandNotFound,
      QuerySelector containerSelector, Alert NoCreatorsCheckPage]"
proof -
  have t: "\<not> falsy (csrf_token env_no_container)"
    by (simp add: csrf_token_env_no_container falsy_def)
  have x: "expandListIfNeeded env_no_container =
     (page_without_container, [QuerySelector expandBtnSelector, Console LogExpandNotFound])"
    by (simp add: expand_cases env_no_container_def page_without_container_def)
  have p: "page env_no_container = page_without_container"
    by (simp add: env_no_container_def)
  have c: "container page_without_container = None"
    by (simp add: page_without_container_def)
  show ?thesis
    using container_absent [of "page env_no_container" env_no_container] t
    by (simp add: x p c)
qed

text \<open>
  C6 as it is worded fails in \<^verbatim>\<open>src/unnamed/part_000\<close>: its extractor does nothing
  but the one DOM query when the container is missing, and the only alert of the run is
  the orchestrator's "No creators found. Please check page structure.".
\<close>

theorem container_absent_silent_counterexample:
  "container page_without_container = None \<and>
   getRecommendationUids_p0 page_without_container = ([], [QuerySelector containerSelector]) \<and>
   startBatchBlock_p0 env_no_container =
     [QuerySelector expandBtnSelector, Console LogExpandNotFound,
      QuerySelector containerSelector, Alert NoCreatorsCheckPage]"
proof -
  have t: "\<not> falsy (csrf_token env_no_container)"
    by (simp add: csrf_token_env_no_container falsy_def)
  have x: "expandListIfNeeded env_no_container =
     (page_without_container, [QuerySelector expandBtnSelector, Console LogExpandNotFound])"
    by (simp add: expand_cases env_no_container_def page_without_container_def)
  show ?thesis
    using t by (simp add: startBatchBlock_p0_eq x getRecommendationUids_p0_def
        page_without_container_def)
qed

lemma expand_wait_not_interval: "expandWaitTime \<noteq> blockInterval"
  by (simp add: expandWaitTime_def blockInterval_def)

lemma click_in_run_p0:
  "Click \<in> set (startBatchBlock_p0 e) \<longleftrightarrow>
     \<not> falsy (csrf_token e) \<and> expandBtn (page e) = Some True"
  unfolding startBatchBlock_p0_eq
  using extractor_p0_kinds [of Click "fst (expandListIfNeeded e)"]
    batch_kinds [of Click e "fst (getRecommendationUids_p0 (fst (expandListIfNeeded e)))"]
  by (auto simp: expand_cases split: if_splits)

lemma expand_wait_in_run_p0:
  "Sleep expandWaitTime \<in> set (startBatchBlock_p0 e) \<longleftrightarrow>
     \<not> falsy (csrf_token e) \<and> expandBtn (page e) = Some True"
  unfolding startBatchBlock_p0_eq
  using extractor_p0_kinds [of "Sleep expandWaitTime" "fst (expandListIfNeeded e)"]
    batch_kinds [of "Sleep expandWaitTime" e
      "fst (getRecommendationUids_p0 (fst (expandListIfNeeded e)))"]
    expand_wait_not_interval
  by (auto simp: expand_cases split: if_splits)

lemma no_click_in_run: "Click \<notin> set (startBatchBlock e)"
  unfolding startBatchBlock_eq
  using extractor_kinds [of Click "page e"]
    batch_kinds [of Click e "fst (getRecommendationUids (page e))"]
  by (auto split: if_splits)

text \<open>
  C8. The expansion step of \<^verbatim>\<open>src/unnamed/part_000\<close> clicks the expand control and
  then waits \<open>expandWaitTime\<close> milliseconds when the control is in the DOM and visible
  (its \<^verbatim>\<open>offsetParent\<close> is not \<^verbatim>\<open>null\<close>); otherwise it only writes a line to the
  console and leaves the DOM as it is. In a run the step comes before the extractor's
  query, which follows it directly. A run clicks, and waits that long, exactly when
  there is a credential and the control is there and visible. \<^verbatim>\<open>src/main.js\<close> has no
  such step and never clicks.
\<close>

theorem expand_only_when_visible:
  "(expandBtn (page e) = Some True \<longrightarrow>
      expandListIfNeeded e =
        (page_expanded e,
         [QuerySelector expandBtnSelector, Console LogExpandClicking, Click,
          Sleep expandWaitTime])) \<and>
   (expandBtn (page e) \<noteq> Some True \<longrightarrow>
      expandListIfNeeded e =
        (page e, [QuerySelector expandBtnSelector, Console LogExpandNotFound])) \<and>
   (\<not> falsy (csrf_token e) \<longrightarrow>
      (\<exists>rest. startBatchBlock_p0 e =
         snd (expandListIfNeeded e) @
         snd (getRecommendationUids_p0 (fst (expandListIfNeeded e))) @ rest)) \<and>
   (Click \<in> set (startBatchBlock_p0 e) \<longleftrightarrow>
      \<not> falsy (csrf_token e) \<and> expandBtn (page e) = Some True) \<and>
   (Sleep expandWaitTime \<in> set (startBatchBlock_p0 e) \<longleftrightarrow>
      \<not> falsy (csrf_token e) \<and> expandBtn (page e) = Some True) \<and>
   Click \<notin> set (startBatchBlock e)"
proof (intro conjI impI)
  show "Click \<notin> set (startBatchBlock e)"
    by (rule no_click_in_run)
  show "Click \<in> set (startBatchBlock_p0 e) \<longleftrightarrow>
      \<not> falsy (csrf_token e) \<and> expandBtn (page e) = Some True"
    by (rule click_in_run_p0)
  show "Sleep expandWaitTime \<in> set (startBatchBlock_p0 e) \<longleftrightarrow>
      \<not> falsy (csrf_token e) \<and> expandBtn (page e) = Some True"
    by (rule expand_wait_in_run_p0)
next
  assume "\<not> falsy (csrf_token e)"
  then show "\<exists>rest. startBatchBlock_p0 e =
         snd (expandListIfNeeded e) @
         snd (getRecommendationUids_p0 (fst (expandListIfNeeded e))) @ rest"
    by (simp add: startBatchBlock_p0_eq)
qed (simp_all add: expand_cases)

theorem expand_only_when_visible_witness:
  "expandBtn (page env_abc) = Some True \<and>
   expandListIfNeeded env_abc =
     (page_expanded env_abc,
      [QuerySelector expandBtnSelector, Console LogExpandClicking, Click, Sleep expandWaitTime]) \<and>
   expandBtn (page env_no_container) = None \<and>
   expandListIfNeeded env_no_container =
     (page env_no_container, [QuerySelector expandBtnSelector, Console LogExpandNotFound]) \<and>
   Click \<in> set (startBatchBlock_p0 env_abc)"
proof -
  have a: "expandBtn (page env_abc) = Some True"
    by (simp add: env_abc_def page_abc_def)
  have n: "expandBtn (page env_no_container) = None"
    by (simp add: env_no_container_def page_without_container_def)
  have t: "\<not> falsy (csrf_token env_abc)"
    by (simp add: csrf_token_env_abc falsy_def)
  show ?thesis
    using expand_only_when_visible [of env_abc] expand_only_when_visible [of env_no_container]
      a n t
    by simp
qed

end
